theory Spec2Isabelle
  imports Main "HOL-Library.Word"
begin

section \<open>JavaScript strings\<close>

text \<open>
  A JavaScript string is a sequence of UTF-16 code units; \<open>===\<close> on strings compares
  these sequences. ASCII literals of the source are written \<open>js ''...''\<close>.
\<close>

type_synonym jschar = "16 word"

type_synonym jsstring = "jschar list"

definition js :: "string \<Rightarrow> jsstring" where
  "js s = map of_char s"

text \<open>
  The code units removed by \<open>String.prototype.trim\<close>: ECMAScript WhiteSpace (TAB, VT, FF,
  ZWNBSP and the Unicode category Zs) and LineTerminator (LF, CR, LS, PS).
\<close>

definition is_ws :: "jschar \<Rightarrow> bool" where
  "is_ws c = (c = 0x0009 \<or> c = 0x000A \<or> c = 0x000B \<or> c = 0x000C \<or> c = 0x000D
     \<or> c = 0x0020 \<or> c = 0x00A0 \<or> c = 0x1680 \<or> (0x2000 \<le> c \<and> c \<le> 0x200A)
     \<or> c = 0x2028 \<or> c = 0x2029 \<or> c = 0x202F \<or> c = 0x205F \<or> c = 0x3000
     \<or> c = 0xFEFF)"

text \<open>\<open>s.trim()\<close>: white space is dropped at both ends.\<close>

definition trim :: "jsstring \<Rightarrow> jsstring" where
  "trim s = rev (dropWhile is_ws (rev (dropWhile is_ws s)))"

text \<open>
  \<open>s.startsWith(p)\<close> and \<open>s.includes(p)\<close>: \<open>p\<close> occurs at the front of, or somewhere
  in, \<open>s\<close>. (\<open>includes\<close> is a keyword of Isabelle, hence the suffix.)
\<close>

fun startsWith :: "'a list \<Rightarrow> 'a list \<Rightarrow> bool" where
  "startsWith s [] = True"
| "startsWith [] (p # ps) = False"
| "startsWith (c # cs) (p # ps) = (c = p \<and> startsWith cs ps)"

fun includes_js :: "'a list \<Rightarrow> 'a list \<Rightarrow> bool" where
  "includes_js [] p = (p = [])"
| "includes_js (c # cs) p = (startsWith (c # cs) p \<or> includes_js cs p)"

section \<open>The configuration (contexts/AppContext)\<close>

datatype Theme = Dark | Light | System

record RelayConfigItem =
  url :: jsstring
  enabled :: bool

record AppConfig =
  theme :: Theme
  relays :: "RelayConfigItem list"

section \<open>The relay selector (components/RelaySelector.tsx)\<close>

text \<open>
  \<open>normalizeRelayUrl\<close>: the trimmed input; an empty result is returned as it is, a string
  with \<open>://\<close> is returned as it is, anything else gets the prefix \<open>wss://\<close>.
\<close>

definition normalizeRelayUrl :: "jsstring \<Rightarrow> jsstring" where
  "normalizeRelayUrl u =
     (let trimmed = trim u in
      if trimmed = [] then trimmed
      else if includes_js trimmed (js ''://'') then trimmed
      else js ''wss://'' @ trimmed)"

text \<open>
  \<open>upsertRelay(rawUrl, enabled)\<close>. The selector hands an updater to \<open>updateConfig\<close>, which
  applies it to the current configuration; the model takes the current configuration and
  returns the next one. An empty normalised URL returns before \<open>updateConfig\<close> is called.
  The source's local \<open>url\<close> and parameter \<open>enabled\<close> are \<open>nurl\<close> and \<open>flag\<close> here, the
  record fields having these names.
\<close>

definition upsertRelay :: "jsstring \<Rightarrow> bool \<Rightarrow> AppConfig \<Rightarrow> AppConfig" where
  "upsertRelay rawUrl flag current =
     (let nurl = normalizeRelayUrl rawUrl in
      if nurl = [] then current
      else
        let normalized = normalizeRelayUrl nurl;
            existing = find (\<lambda>r. url r = normalized) (relays current);
            enabledCount = length (filter enabled (relays current))
        in case existing of
             Some e \<Rightarrow>
               if enabled e \<and> \<not> flag \<and> enabledCount \<le> 1 then current
               else current\<lparr>relays :=
                      map (\<lambda>r. if url r = normalized then r\<lparr>enabled := flag\<rparr> else r)
                        (relays current)\<rparr>
           | None \<Rightarrow>
               current\<lparr>relays := relays current @ [\<lparr>url = normalized, enabled = True\<rparr>]\<rparr>)"

text \<open>
  The number of positions at which two relay lists differ in the \<open>enabled\<close> flag; used to
  state what \<open>upsertRelay\<close> leaves alone.
\<close>

definition changedFlags :: "RelayConfigItem list \<Rightarrow> RelayConfigItem list \<Rightarrow> nat" where
  "changedFlags rs rs' = length (filter (\<lambda>(a, b). enabled a \<noteq> enabled b) (zip rs rs'))"

section \<open>Stored payloads (components/AppProvider.tsx)\<close>

text \<open>
  The values \<open>JSON.parse\<close> returns. Numbers play no part in the schemas, so their type is
  left open. The list of a \<open>JObj\<close> holds the object's properties, one pair for each key;
  reading a property that is absent gives \<open>undefined\<close>, here \<open>None\<close>.
\<close>

datatype 'n json =
    JNull
  | JBool bool
  | JNum 'n
  | JStr jsstring
  | JArr "'n json list"
  | JObj "(jsstring \<times> 'n json) list"

definition getProp :: "(jsstring \<times> 'n json) list \<Rightarrow> string \<Rightarrow> 'n json option" where
  "getProp kvs k = map_of kvs (js k)"

text \<open>
  The zod schemas, as parsers: \<open>safeParse\<close> succeeds with the parsed data (\<open>Some\<close>) or fails
  (\<open>None\<close>). \<open>z.object\<close> accepts an object that is neither \<open>null\<close> nor an array, reads the
  keys of the schema and drops every other key. What \<open>z.string().url()\<close> accepts is decided
  by the platform's URL parser; it is the parameter \<open>is_url\<close>.
\<close>

fun z_enum_theme :: "'n json option \<Rightarrow> Theme option" where
  "z_enum_theme (Some (JStr s)) =
     (if s = js ''dark'' then Some Dark
      else if s = js ''light'' then Some Light
      else if s = js ''system'' then Some System
      else None)"
| "z_enum_theme _ = None"

fun z_string_url :: "(jsstring \<Rightarrow> bool) \<Rightarrow> 'n json option \<Rightarrow> jsstring option" where
  "z_string_url is_url (Some (JStr s)) = (if is_url s then Some s else None)"
| "z_string_url is_url _ = None"

fun z_boolean :: "'n json option \<Rightarrow> bool option" where
  "z_boolean (Some (JBool b)) = Some b"
| "z_boolean _ = None"

fun RelayConfigItemSchema :: "(jsstring \<Rightarrow> bool) \<Rightarrow> 'n json \<Rightarrow> RelayConfigItem option" where
  "RelayConfigItemSchema is_url (JObj kvs) =
     (case z_string_url is_url (getProp kvs ''url'') of
        None \<Rightarrow> None
      | Some u \<Rightarrow>
          (case z_boolean (getProp kvs ''enabled'') of
             None \<Rightarrow> None
           | Some b \<Rightarrow> Some \<lparr>url = u, enabled = b\<rparr>))"
| "RelayConfigItemSchema is_url _ = None"

text \<open>\<open>z.array(RelayConfigItemSchema).min(1)\<close>: an array, every element valid, not empty.\<close>

fun z_array_relays :: "(jsstring \<Rightarrow> bool) \<Rightarrow> 'n json option \<Rightarrow> RelayConfigItem list option" where
  "z_array_relays is_url (Some (JArr xs)) =
     (case those (map (RelayConfigItemSchema is_url) xs) of
        None \<Rightarrow> None
      | Some rs \<Rightarrow> if length rs \<ge> 1 then Some rs else None)"
| "z_array_relays is_url _ = None"

fun AppConfigSchema :: "(jsstring \<Rightarrow> bool) \<Rightarrow> 'n json \<Rightarrow> AppConfig option" where
  "AppConfigSchema is_url (JObj kvs) =
     (case z_enum_theme (getProp kvs ''theme'') of
        None \<Rightarrow> None
      | Some t \<Rightarrow>
          (case z_array_relays is_url (getProp kvs ''relays'') of
             None \<Rightarrow> None
           | Some rs \<Rightarrow> Some \<lparr>theme = t, relays = rs\<rparr>))"
| "AppConfigSchema is_url _ = None"

record LegacyAppConfig =
  legacyTheme :: Theme
  relayUrl :: jsstring

fun LegacyAppConfigSchema :: "(jsstring \<Rightarrow> bool) \<Rightarrow> 'n json \<Rightarrow> LegacyAppConfig option" where
  "LegacyAppConfigSchema is_url (JObj kvs) =
     (case z_enum_theme (getProp kvs ''theme'') of
        None \<Rightarrow> None
      | Some t \<Rightarrow>
          (case z_string_url is_url (getProp kvs ''relayUrl'') of
             None \<Rightarrow> None
           | Some u \<Rightarrow> Some \<lparr>legacyTheme = t, relayUrl = u\<rparr>))"
| "LegacyAppConfigSchema is_url _ = None"

text \<open>
  The \<open>deserialize\<close> option of the configuration store. \<open>JSON.parse\<close> is the platform's; it
  is the parameter \<open>JSON_parse\<close>, and \<open>None\<close> is its exception, which the \<open>catch\<close> turns into
  the default configuration. Nothing else in the \<open>try\<close> block can throw.
\<close>

definition deserialize ::
  "(jsstring \<Rightarrow> 'n json option) \<Rightarrow> (jsstring \<Rightarrow> bool) \<Rightarrow> AppConfig \<Rightarrow> jsstring \<Rightarrow> AppConfig" where
  "deserialize JSON_parse is_url defaultConfig v =
     (case JSON_parse v of
        None \<Rightarrow> defaultConfig
      | Some parsed \<Rightarrow>
          (case AppConfigSchema is_url parsed of
             Some data \<Rightarrow>
               (let hasEnabled = list_ex enabled (relays data) in
                if hasEnabled then data
                else data\<lparr>relays :=
                       map (\<lambda>(i, r). r\<lparr>enabled := (i = 0)\<rparr>) (enumerate 0 (relays data))\<rparr>)
           | None \<Rightarrow>
               (case LegacyAppConfigSchema is_url parsed of
                  Some legacy \<Rightarrow>
                    \<lparr>theme = legacyTheme legacy,
                     relays = [\<lparr>url = relayUrl legacy, enabled = True\<rparr>]\<rparr>
                | None \<Rightarrow> defaultConfig)))"

section \<open>The application's default configuration (App.tsx)\<close>

definition defaultConfig :: AppConfig where
  "defaultConfig =
     \<lparr>theme = Dark,
      relays =
        [\<lparr>url = js ''wss://nostr-01.yakihonne.com'', enabled = True\<rparr>,
         \<lparr>url = js ''wss://nostr-02.yakihonne.com'', enabled = True\<rparr>,
         \<lparr>url = js ''wss://relay.damus.io'', enabled = True\<rparr>,
         \<lparr>url = js ''wss://relay.angor.io'', enabled = True\<rparr>,
         \<lparr>url = js ''wss://relay.primal.net'', enabled = True\<rparr>,
         \<lparr>url = js ''wss://nos.lol'', enabled = True\<rparr>]\<rparr>"

section \<open>The relay pool adapter (components/NostrProvider.tsx)\<close>

text \<open>
  The list of URLs the routers read, \<open>relayUrls.current\<close>. The reference starts with the
  URLs of the enabled relays; the effect that runs after the component is mounted, and
  after every change of \<open>config.relays\<close>, stores the list with the fallback.
\<close>

definition relayUrls_initial :: "AppConfig \<Rightarrow> jsstring list" where
  "relayUrls_initial config = map url (filter enabled (relays config))"

definition relayUrls_effect :: "AppConfig \<Rightarrow> jsstring list" where
  "relayUrls_effect config =
     (let enabledUrls = map url (filter enabled (relays config)) in
      if length enabledUrls > 0 then enabledUrls
      else map url (take 1 (relays config)))"

text \<open>
  \<open>eventRouter\<close> returns the list. \<open>reqRouter\<close> builds a \<open>Map\<close> from it, each URL with the
  filters: one entry for each key, in the order in which the keys first occur.
\<close>

definition eventRouter :: "jsstring list \<Rightarrow> 'e \<Rightarrow> jsstring list" where
  "eventRouter relayUrls_current event = relayUrls_current"

definition reqRouter :: "jsstring list \<Rightarrow> 'f \<Rightarrow> (jsstring \<times> 'f) list" where
  "reqRouter relayUrls_current filters =
     map (\<lambda>u. (u, filters)) (rev (remdups (rev relayUrls_current)))"

section \<open>Strings: trimming and searching\<close>

lemma dropWhile_hd_fix: "xs \<noteq> [] \<Longrightarrow> \<not> P (hd xs) \<Longrightarrow> dropWhile P xs = xs"
  by (cases xs) auto

lemma dropWhile_rev_fix: "xs \<noteq> [] \<Longrightarrow> \<not> P (last xs) \<Longrightarrow> dropWhile P (rev xs) = rev xs"
  by (cases xs rule: rev_cases) auto

lemma hd_dropWhile_not: "dropWhile P xs \<noteq> [] \<Longrightarrow> \<not> P (hd (dropWhile P xs))"
  by (induction xs) auto

lemma rev_dropWhile_rev_hd:
  "xs \<noteq> [] \<Longrightarrow> \<not> P (hd xs) \<Longrightarrow>
     rev (dropWhile P (rev xs)) \<noteq> [] \<and> hd (rev (dropWhile P (rev xs))) = hd xs"
  by (cases xs) (auto simp: dropWhile_append)

lemma trim_Nil: "trim [] = []"
  by (simp add: trim_def)

text \<open>A string that neither starts nor ends with white space is its own trimmed form.\<close>

lemma trim_fix: "s \<noteq> [] \<Longrightarrow> \<not> is_ws (hd s) \<Longrightarrow> \<not> is_ws (last s) \<Longrightarrow> trim s = s"
  by (simp add: trim_def dropWhile_hd_fix dropWhile_rev_fix)

lemma trim_last: "trim s \<noteq> [] \<Longrightarrow> \<not> is_ws (last (trim s))"
  unfolding trim_def using hd_dropWhile_not[of is_ws "rev (dropWhile is_ws s)"]
  by (simp add: last_rev)

lemma trim_hd: "trim s \<noteq> [] \<Longrightarrow> \<not> is_ws (hd (trim s))"
proof -
  assume a: "trim s \<noteq> []"
  have "trim s = []" if "dropWhile is_ws s = []"
    unfolding trim_def that by simp
  with a have ne: "dropWhile is_ws s \<noteq> []" by blast
  then have h: "\<not> is_ws (hd (dropWhile is_ws s))" by (rule hd_dropWhile_not)
  from rev_dropWhile_rev_hd[of "dropWhile is_ws s" is_ws] ne h
  show ?thesis by (simp add: trim_def)
qed

lemma trim_trim: "trim (trim s) = trim s"
proof (cases "trim s = []")
  case True
  with trim_Nil show ?thesis by simp
next
  case False
  then show ?thesis by (simp add: trim_fix trim_hd trim_last)
qed

text \<open>\<open>startsWith\<close> and \<open>includes_js\<close> are the prefix and the substring relation.\<close>

lemma startsWith_iff: "startsWith s p \<longleftrightarrow> (\<exists>t. s = p @ t)"
  by (induction s p rule: startsWith.induct) auto

lemma includes_js_iff: "includes_js s p \<longleftrightarrow> (\<exists>a b. s = a @ p @ b)"
proof (induction s)
  case Nil
  then show ?case by auto
next
  case (Cons c cs)
  show ?case
  proof
    assume "includes_js (c # cs) p"
    then consider "startsWith (c # cs) p" | "includes_js cs p" by auto
    then show "\<exists>a b. c # cs = a @ p @ b"
    proof cases
      case 1
      then obtain t where "c # cs = p @ t" by (auto simp: startsWith_iff)
      then have "c # cs = [] @ p @ t" by simp
      then show ?thesis by blast
    next
      case 2
      then obtain a b where "cs = a @ p @ b" using Cons.IH by auto
      then have "c # cs = (c # a) @ p @ b" by simp
      then show ?thesis by blast
    qed
  next
    assume "\<exists>a b. c # cs = a @ p @ b"
    then obtain a b where ab: "c # cs = a @ p @ b" by auto
    show "includes_js (c # cs) p"
    proof (cases a)
      case Nil
      with ab have "startsWith (c # cs) p" by (auto simp: startsWith_iff)
      then show ?thesis by simp
    next
      case (Cons a0 as)
      with ab have "cs = as @ p @ b" by simp
      then have "includes_js cs p" using Cons.IH by auto
      then show ?thesis by simp
    qed
  qed
qed

section \<open>URL normalisation\<close>

lemma normalizeRelayUrl_unfold:
  "normalizeRelayUrl x =
     (if trim x = [] then []
      else if includes_js (trim x) (js ''://'') then trim x
      else js ''wss://'' @ trim x)"
  by (simp add: normalizeRelayUrl_def Let_def)

lemma includes_wss: "includes_js (js ''wss://'' @ t) (js ''://'')"
  by (simp add: js_def)

lemma trim_wss: "trim x \<noteq> [] \<Longrightarrow> trim (js ''wss://'' @ trim x) = js ''wss://'' @ trim x"
proof -
  assume ne: "trim x \<noteq> []"
  have l: "\<not> is_ws (last (js ''wss://'' @ trim x))" using ne trim_last by simp
  have h: "\<not> is_ws (hd (js ''wss://'' @ trim x))" by (simp add: js_def is_ws_def)
  show ?thesis using h l by (intro trim_fix) (simp_all add: js_def)
qed

lemma normalizeRelayUrl_idem: "normalizeRelayUrl (normalizeRelayUrl x) = normalizeRelayUrl x"
proof -
  consider (e) "trim x = []" | (i) "trim x \<noteq> []" "includes_js (trim x) (js ''://'')"
    | (p) "trim x \<noteq> []" "\<not> includes_js (trim x) (js ''://'')" by blast
  then show ?thesis
  proof cases
    case e
    then have "normalizeRelayUrl x = []" by (simp add: normalizeRelayUrl_unfold)
    then show ?thesis using trim_Nil by (simp add: normalizeRelayUrl_unfold)
  next
    case i
    then show ?thesis by (simp add: normalizeRelayUrl_unfold trim_trim)
  next
    case p
    then show ?thesis using includes_wss[of "trim x"] trim_wss[of x]
      by (simp add: normalizeRelayUrl_unfold)
  qed
qed

text \<open>
  C7, as the code has it. Normalisation is idempotent, sends \<open>relay.example.com\<close> to
  \<open>wss://relay.example.com\<close> and leaves \<open>ws://x\<close> alone. It trims white space and puts
  \<open>wss://\<close> in front exactly when the trimmed string is not empty and contains no \<open>://\<close>;
  an empty trimmed string is returned as it is, without the prefix.
\<close>

theorem normalizeRelayUrl_idempotent_examples:
  "normalizeRelayUrl (normalizeRelayUrl x) = normalizeRelayUrl x
   \<and> normalizeRelayUrl (js ''relay.example.com'') = js ''wss://relay.example.com''
   \<and> normalizeRelayUrl (js ''ws://x'') = js ''ws://x''
   \<and> normalizeRelayUrl x =
       (if trim x \<noteq> [] \<and> \<not> includes_js (trim x) (js ''://'')
        then js ''wss://'' @ trim x else trim x)"
proof -
  have a: "normalizeRelayUrl (js ''relay.example.com'') = js ''wss://relay.example.com''"
    by (simp add: normalizeRelayUrl_def trim_def js_def is_ws_def)
  have b: "normalizeRelayUrl (js ''ws://x'') = js ''ws://x''"
    by (simp add: normalizeRelayUrl_def trim_def js_def is_ws_def)
  have c: "normalizeRelayUrl x =
       (if trim x \<noteq> [] \<and> \<not> includes_js (trim x) (js ''://'')
        then js ''wss://'' @ trim x else trim x)"
    by (simp add: normalizeRelayUrl_unfold)
  from normalizeRelayUrl_idem a b c show ?thesis by blast
qed

theorem normalizeRelayUrl_idempotent_examples_witness:
  "normalizeRelayUrl (normalizeRelayUrl (js '' relay.damus.io '')) = js ''wss://relay.damus.io''
   \<and> normalizeRelayUrl (js '' relay.damus.io '') = js ''wss://'' @ trim (js '' relay.damus.io '')"
  using normalizeRelayUrl_idempotent_examples [of "js '' relay.damus.io ''"]
  by (simp add: normalizeRelayUrl_def trim_def js_def is_ws_def)

text \<open>
  C7 as the specification words it fails on the empty string: it contains no \<open>://\<close>, and
  yet no prefix is added.
\<close>

theorem normalizeRelayUrl_prefix_counterexample:
  "\<not> includes_js (trim (js '''')) (js ''://'')
   \<and> normalizeRelayUrl (js '''') \<noteq> js ''wss://'' @ trim (js '''')"
  by (simp add: normalizeRelayUrl_def trim_def js_def)

section \<open>The selector's upsert\<close>

lemma find_url_None_iff: "find (\<lambda>r. url r = n) rs = None \<longleftrightarrow> n \<notin> set (map url rs)"
  by (induction rs) auto

lemma find_url_Some:
  "find (\<lambda>r. url r = n) rs = Some e \<Longrightarrow> e \<in> set rs \<and> url e = n"
  by (induction rs) (auto split: if_splits)

lemma find_url_distinct:
  "distinct (map url rs) \<Longrightarrow> r \<in> set rs \<Longrightarrow> find (\<lambda>x. url x = url r) rs = Some r"
  by (induction rs) auto

lemma upsertRelay_empty: "normalizeRelayUrl u = [] \<Longrightarrow> upsertRelay u flag c = c"
  by (simp add: upsertRelay_def)

lemma upsertRelay_absent:
  "normalizeRelayUrl u \<noteq> [] \<Longrightarrow> find (\<lambda>r. url r = normalizeRelayUrl u) (relays c) = None \<Longrightarrow>
     upsertRelay u flag c =
       c\<lparr>relays := relays c @ [\<lparr>url = normalizeRelayUrl u, enabled = True\<rparr>]\<rparr>"
  by (simp add: upsertRelay_def normalizeRelayUrl_idem)

lemma upsertRelay_present:
  "normalizeRelayUrl u \<noteq> [] \<Longrightarrow> find (\<lambda>r. url r = normalizeRelayUrl u) (relays c) = Some e \<Longrightarrow>
     upsertRelay u flag c =
       (if enabled e \<and> \<not> flag \<and> length (filter enabled (relays c)) \<le> 1 then c
        else c\<lparr>relays :=
               map (\<lambda>r. if url r = normalizeRelayUrl u then r\<lparr>enabled := flag\<rparr> else r) (relays c)\<rparr>)"
  by (simp add: upsertRelay_def normalizeRelayUrl_idem)

lemma set_flag_absent:
  "n \<notin> set (map url rs) \<Longrightarrow> map (\<lambda>r. if url r = n then r\<lparr>enabled := flag\<rparr> else r) rs = rs"
  by (induction rs) auto

lemma set_flag_urls:
  "map url (map (\<lambda>r. if url r = n then r\<lparr>enabled := flag\<rparr> else r) rs) = map url rs"
  by (induction rs) auto

lemma changedFlags_same: "changedFlags rs rs = 0"
  by (induction rs) (auto simp: changedFlags_def)

lemma changedFlags_set_flag:
  "distinct (map url rs) \<Longrightarrow>
     changedFlags rs (map (\<lambda>r. if url r = n then r\<lparr>enabled := flag\<rparr> else r) rs) \<le> 1"
proof (induction rs)
  case Nil
  then show ?case by (simp add: changedFlags_def)
next
  case (Cons r rs)
  show ?case
  proof (cases "url r = n")
    case True
    with Cons.prems have "n \<notin> set (map url rs)" by auto
    then have "map (\<lambda>r. if url r = n then r\<lparr>enabled := flag\<rparr> else r) rs = rs"
      by (rule set_flag_absent)
    then show ?thesis using changedFlags_same[of rs] True by (simp add: changedFlags_def)
  next
    case False
    with Cons show ?thesis by (simp add: changedFlags_def)
  qed
qed

lemma list_ex_filter: "list_ex P xs \<longleftrightarrow> 0 < length (filter P xs)"
  by (induction xs) auto

lemma set_flag_count:
  "distinct (map url rs) \<Longrightarrow>
     length (filter enabled rs) - 1
       \<le> length (filter enabled (map (\<lambda>r. if url r = n then r\<lparr>enabled := flag\<rparr> else r) rs))"
proof (induction rs)
  case Nil
  then show ?case by simp
next
  case (Cons r rs)
  show ?case
  proof (cases "url r = n")
    case True
    with Cons.prems have "n \<notin> set (map url rs)" by auto
    then have "map (\<lambda>r. if url r = n then r\<lparr>enabled := flag\<rparr> else r) rs = rs"
      by (rule set_flag_absent)
    then show ?thesis using True by (auto intro: le_SucI)
  next
    case False
    from Cons have ih: "length (filter enabled rs) - 1
       \<le> length (filter enabled (map (\<lambda>r. if url r = n then r\<lparr>enabled := flag\<rparr> else r) rs))"
      by simp
    from False ih show ?thesis by (cases "enabled r") simp_all
  qed
qed

lemma set_flag_other:
  "r \<in> set rs \<Longrightarrow> url r \<noteq> n \<Longrightarrow>
     r \<in> set (map (\<lambda>r. if url r = n then r\<lparr>enabled := flag\<rparr> else r) rs)"
  by (induction rs) auto

lemma set_flag_hit:
  "e \<in> set rs \<Longrightarrow> url e = n \<Longrightarrow>
     e\<lparr>enabled := flag\<rparr> \<in> set (map (\<lambda>r. if url r = n then r\<lparr>enabled := flag\<rparr> else r) rs)"
  by (induction rs) auto

lemma distinct_url_eq:
  "distinct (map url rs) \<Longrightarrow> r \<in> set rs \<Longrightarrow> e \<in> set rs \<Longrightarrow> url r = url e \<Longrightarrow> r = e"
  by (induction rs) (auto simp: image_iff)

lemma upsertRelay_list_ex_enabled:
  assumes d: "distinct (map url (relays c))" and en: "list_ex enabled (relays c)"
  shows "list_ex enabled (relays (upsertRelay u flag c))"
proof (cases "normalizeRelayUrl u = []")
  case True
  with en show ?thesis by (simp add: upsertRelay_empty)
next
  case ne: False
  let ?n = "normalizeRelayUrl u"
  let ?f = "\<lambda>r. if url r = ?n then r\<lparr>enabled := flag\<rparr> else r"
  show ?thesis
  proof (cases "find (\<lambda>r. url r = ?n) (relays c)")
    case None
    with ne show ?thesis by (simp add: upsertRelay_absent)
  next
    case (Some e)
    then have e: "e \<in> set (relays c)" "url e = ?n" using find_url_Some by auto
    show ?thesis
    proof (cases "enabled e \<and> \<not> flag \<and> length (filter enabled (relays c)) \<le> 1")
      case True
      with ne Some en show ?thesis by (simp add: upsertRelay_present)
    next
      case guard: False
      have "upsertRelay u flag c = c\<lparr>relays := map ?f (relays c)\<rparr>"
        using upsertRelay_present[OF ne Some, of flag] by (simp only: guard if_False)
      then have up: "relays (upsertRelay u flag c) = map ?f (relays c)" by simp
      have "list_ex enabled (map ?f (relays c))"
      proof (cases flag)
        case True
        from e have "e\<lparr>enabled := flag\<rparr> \<in> set (map ?f (relays c))" by (intro set_flag_hit)
        moreover have "enabled (e\<lparr>enabled := flag\<rparr>)" using True by simp
        ultimately show ?thesis unfolding list_ex_iff by blast
      next
        case nf: False
        show ?thesis
        proof (cases "enabled e")
          case True
          with guard nf have "1 < length (filter enabled (relays c))" by simp
          with set_flag_count[OF d, of ?n flag]
          have "0 < length (filter enabled (map ?f (relays c)))" by linarith
          then show ?thesis by (simp add: list_ex_filter)
        next
          case ne': False
          from en obtain r where r: "r \<in> set (relays c)" "enabled r" by (auto simp: list_ex_iff)
          have "url r \<noteq> ?n"
          proof
            assume "url r = ?n"
            with e have "url r = url e" by simp
            with d r e have "r = e" by (auto dest: distinct_url_eq)
            with r ne' show False by simp
          qed
          with r have "r \<in> set (map ?f (relays c))" by (intro set_flag_other)
          with r show ?thesis unfolding list_ex_iff by blast
        qed
      qed
      with up show ?thesis by simp
    qed
  qed
qed

lemma upsertRelay_sole_enabled:
  assumes d: "distinct (map url (relays c))" and r: "r \<in> set (relays c)" "enabled r"
    and one: "length (filter enabled (relays c)) = 1"
    and stable: "normalizeRelayUrl (url r) = url r"
  shows "upsertRelay (url r) False c = c"
proof (cases "normalizeRelayUrl (url r) = []")
  case True
  then show ?thesis by (rule upsertRelay_empty)
next
  case False
  from d r(1) have "find (\<lambda>x. url x = url r) (relays c) = Some r" by (rule find_url_distinct)
  with stable have "find (\<lambda>x. url x = normalizeRelayUrl (url r)) (relays c) = Some r" by simp
  from upsertRelay_present[OF False this, of False] r(2) one show ?thesis by simp
qed

text \<open>
  The selector keeps the stored URLs pairwise distinct, and the default configuration
  has them so.
\<close>

lemma upsertRelay_distinct:
  assumes "distinct (map url (relays c))"
  shows "distinct (map url (relays (upsertRelay u flag c)))"
proof (cases "normalizeRelayUrl u = []")
  case True
  with assms show ?thesis by (simp add: upsertRelay_empty)
next
  case ne: False
  show ?thesis
  proof (cases "find (\<lambda>r. url r = normalizeRelayUrl u) (relays c)")
    case None
    then have "normalizeRelayUrl u \<notin> set (map url (relays c))" by (simp add: find_url_None_iff)
    with assms ne None show ?thesis by (simp add: upsertRelay_absent)
  next
    case (Some e)
    from upsertRelay_present[OF ne Some, of flag] assms show ?thesis
      by (cases "enabled e \<and> \<not> flag \<and> length (filter enabled (relays c)) \<le> 1")
         (simp_all add: set_flag_urls del: map_map)
  qed
qed

lemma defaultConfig_distinct: "distinct (map url (relays defaultConfig))"
  by (simp add: defaultConfig_def js_def)

text \<open>
  C5, as the code has it. For a configuration whose relay URLs are pairwise distinct and
  that has an enabled relay, \<open>upsertRelay\<close> with any URL and any flag leaves an enabled
  relay; and when exactly one relay is enabled and its stored URL is a normalised one,
  disabling that URL returns the configuration unchanged.
\<close>

theorem upsertRelay_keeps_enabled:
  assumes "distinct (map url (relays c))" and "list_ex enabled (relays c)"
  shows "list_ex enabled (relays (upsertRelay u flag c))
    \<and> (\<forall>r \<in> set (relays c).
          enabled r \<and> length (filter enabled (relays c)) = 1
            \<and> normalizeRelayUrl (url r) = url r
          \<longrightarrow> upsertRelay (url r) False c = c)"
  using assms upsertRelay_list_ex_enabled upsertRelay_sole_enabled by blast

theorem upsertRelay_keeps_enabled_witness:
  "list_ex enabled (relays (upsertRelay (js ''wss://b.example'') False
       \<lparr>theme = Dark, relays = [\<lparr>url = js ''wss://a.example'', enabled = True\<rparr>,
                                \<lparr>url = js ''wss://b.example'', enabled = False\<rparr>]\<rparr>))
   \<and> upsertRelay (js ''wss://a.example'') False
       \<lparr>theme = Dark, relays = [\<lparr>url = js ''wss://a.example'', enabled = True\<rparr>,
                                \<lparr>url = js ''wss://b.example'', enabled = False\<rparr>]\<rparr>
     = \<lparr>theme = Dark, relays = [\<lparr>url = js ''wss://a.example'', enabled = True\<rparr>,
                                \<lparr>url = js ''wss://b.example'', enabled = False\<rparr>]\<rparr>"
  using upsertRelay_keeps_enabled [of
       "\<lparr>theme = Dark, relays = [\<lparr>url = js ''wss://a.example'', enabled = True\<rparr>,
                                \<lparr>url = js ''wss://b.example'', enabled = False\<rparr>]\<rparr>"
       "js ''wss://b.example''" False]
  by (simp add: normalizeRelayUrl_def trim_def js_def is_ws_def)

text \<open>
  C5 as the specification words it fails twice. With the same URL stored twice, both
  entries enabled, disabling it switches both off: the guard counts two enabled relays.
  And a sole enabled relay stored as \<open>foo:bar\<close> is looked up as \<open>wss://foo:bar\<close>, is not
  found, and a new entry is appended.
\<close>

theorem upsertRelay_keeps_enabled_counterexample:
  "list_ex enabled (relays \<lparr>theme = Dark, relays = [\<lparr>url = js ''wss://a.example'', enabled = True\<rparr>,
                                \<lparr>url = js ''wss://a.example'', enabled = True\<rparr>]\<rparr>)
   \<and> \<not> list_ex enabled (relays (upsertRelay (js ''wss://a.example'') False
       \<lparr>theme = Dark, relays = [\<lparr>url = js ''wss://a.example'', enabled = True\<rparr>,
                                \<lparr>url = js ''wss://a.example'', enabled = True\<rparr>]\<rparr>))
   \<and> length (filter enabled (relays
         \<lparr>theme = Dark, relays = [\<lparr>url = js ''foo:bar'', enabled = True\<rparr>]\<rparr>)) = 1
   \<and> upsertRelay (js ''foo:bar'') False
         \<lparr>theme = Dark, relays = [\<lparr>url = js ''foo:bar'', enabled = True\<rparr>]\<rparr>
       \<noteq> \<lparr>theme = Dark, relays = [\<lparr>url = js ''foo:bar'', enabled = True\<rparr>]\<rparr>"
  by (simp add: upsertRelay_def normalizeRelayUrl_def trim_def js_def is_ws_def Let_def)

lemma upsertRelay_theme: "theme (upsertRelay u flag c) = theme c"
  by (simp add: upsertRelay_def Let_def split: option.splits)

lemma my_relay_org: "normalizeRelayUrl (js ''my.relay.org'') = js ''wss://my.relay.org''"
  by (simp add: normalizeRelayUrl_def trim_def js_def is_ws_def)

text \<open>
  C6, as the code has it. An input whose normalised form is empty leaves the
  configuration unchanged. Otherwise enabling sets the flag of every entry whose \<open>url\<close> is
  the normalised input, when there is one (the list keeps its length and its URLs), and
  else appends the normalised input as an enabled entry at the end; \<open>my.relay.org\<close> is
  appended as \<open>wss://my.relay.org\<close>.
\<close>

theorem upsertRelay_enable:
  "(normalizeRelayUrl u = [] \<longrightarrow> upsertRelay u True c = c)
   \<and> (normalizeRelayUrl u \<noteq> [] \<and> normalizeRelayUrl u \<in> set (map url (relays c)) \<longrightarrow>
        upsertRelay u True c =
          c\<lparr>relays := map (\<lambda>r. if url r = normalizeRelayUrl u then r\<lparr>enabled := True\<rparr> else r)
                         (relays c)\<rparr>
        \<and> length (relays (upsertRelay u True c)) = length (relays c)
        \<and> map url (relays (upsertRelay u True c)) = map url (relays c))
   \<and> (normalizeRelayUrl u \<noteq> [] \<and> normalizeRelayUrl u \<notin> set (map url (relays c)) \<longrightarrow>
        upsertRelay u True c =
          c\<lparr>relays := relays c @ [\<lparr>url = normalizeRelayUrl u, enabled = True\<rparr>]\<rparr>)
   \<and> (js ''wss://my.relay.org'' \<notin> set (map url (relays c)) \<longrightarrow>
        upsertRelay (js ''my.relay.org'') True c =
          c\<lparr>relays := relays c @ [\<lparr>url = js ''wss://my.relay.org'', enabled = True\<rparr>]\<rparr>)"
proof -
  let ?n = "normalizeRelayUrl u"
  have a: "upsertRelay u True c = c" if "?n = []"
    using that by (rule upsertRelay_empty)
  have b: "upsertRelay u True c =
          c\<lparr>relays := map (\<lambda>r. if url r = ?n then r\<lparr>enabled := True\<rparr> else r) (relays c)\<rparr>"
    if ne: "?n \<noteq> []" and "?n \<in> set (map url (relays c))"
  proof -
    from that obtain e where "find (\<lambda>r. url r = ?n) (relays c) = Some e"
      using find_url_None_iff[of ?n "relays c"] by (cases "find (\<lambda>r. url r = ?n) (relays c)") auto
    from upsertRelay_present[OF ne this, of True] show ?thesis by simp
  qed
  have b': "length (relays (upsertRelay u True c)) = length (relays c)
        \<and> map url (relays (upsertRelay u True c)) = map url (relays c)"
    if "?n \<noteq> []" and "?n \<in> set (map url (relays c))"
    using b[OF that] set_flag_urls[of ?n True "relays c"] by simp
  have c: "upsertRelay v True c = c\<lparr>relays := relays c @ [\<lparr>url = normalizeRelayUrl v, enabled = True\<rparr>]\<rparr>"
    if "normalizeRelayUrl v \<noteq> []" and "normalizeRelayUrl v \<notin> set (map url (relays c))" for v
    using that by (intro upsertRelay_absent) (simp_all add: find_url_None_iff)
  have d: "upsertRelay (js ''my.relay.org'') True c =
          c\<lparr>relays := relays c @ [\<lparr>url = js ''wss://my.relay.org'', enabled = True\<rparr>]\<rparr>"
    if "js ''wss://my.relay.org'' \<notin> set (map url (relays c))"
    using c[of "js ''my.relay.org''"] that unfolding my_relay_org by (simp add: js_def)
  from a b b' c[of u] d show ?thesis by blast
qed

theorem upsertRelay_enable_witness:
  "upsertRelay (js ''my.relay.org'') True defaultConfig =
     defaultConfig\<lparr>relays := relays defaultConfig @ [\<lparr>url = js ''wss://my.relay.org'', enabled = True\<rparr>]\<rparr>
   \<and> upsertRelay (js ''b.example'') True
       \<lparr>theme = Light, relays = [\<lparr>url = js ''wss://a.example'', enabled = True\<rparr>,
                                 \<lparr>url = js ''wss://b.example'', enabled = False\<rparr>]\<rparr>
     = \<lparr>theme = Light, relays = [\<lparr>url = js ''wss://a.example'', enabled = True\<rparr>,
                                 \<lparr>url = js ''wss://b.example'', enabled = True\<rparr>]\<rparr>
   \<and> upsertRelay (js '' '') True defaultConfig = defaultConfig"
  using upsertRelay_enable [of "js ''my.relay.org''" defaultConfig]
    upsertRelay_enable [of "js ''b.example''"
       "\<lparr>theme = Light, relays = [\<lparr>url = js ''wss://a.example'', enabled = True\<rparr>,
                                 \<lparr>url = js ''wss://b.example'', enabled = False\<rparr>]\<rparr>"]
    upsertRelay_enable [of "js '' ''" defaultConfig]
  by (simp add: normalizeRelayUrl_def trim_def js_def is_ws_def defaultConfig_def)

text \<open>
  C6 as the specification words it fails on a blank input: no entry has the empty URL,
  and nothing is appended.
\<close>

theorem upsertRelay_enable_counterexample:
  "normalizeRelayUrl (js '' '') \<notin> set (map url (relays defaultConfig))
   \<and> relays (upsertRelay (js '' '') True defaultConfig)
       \<noteq> relays defaultConfig @ [\<lparr>url = normalizeRelayUrl (js '' ''), enabled = True\<rparr>]"
  by (simp add: upsertRelay_def normalizeRelayUrl_def trim_def js_def is_ws_def defaultConfig_def Let_def)

text \<open>
  C9, as the code has it. For a URL whose normalised form is not empty and not in the
  list, \<open>upsertRelay\<close> with the flag \<open>false\<close> changes the configuration: it appends the
  normalised URL as an enabled entry.
\<close>

theorem upsertRelay_disable_absent:
  assumes "normalizeRelayUrl u \<noteq> []" and "normalizeRelayUrl u \<notin> set (map url (relays c))"
  shows "upsertRelay u False c =
           c\<lparr>relays := relays c @ [\<lparr>url = normalizeRelayUrl u, enabled = True\<rparr>]\<rparr>
         \<and> upsertRelay u False c \<noteq> c"
proof -
  from assms have eq: "upsertRelay u False c =
           c\<lparr>relays := relays c @ [\<lparr>url = normalizeRelayUrl u, enabled = True\<rparr>]\<rparr>"
    by (intro upsertRelay_absent) (simp_all add: find_url_None_iff)
  then have "length (relays (upsertRelay u False c)) \<noteq> length (relays c)" by simp
  then have "upsertRelay u False c \<noteq> c" by auto
  with eq show ?thesis by simp
qed

theorem upsertRelay_disable_absent_witness:
  "upsertRelay (js ''relay.example.com'') False defaultConfig =
     defaultConfig\<lparr>relays := relays defaultConfig @ [\<lparr>url = js ''wss://relay.example.com'', enabled = True\<rparr>]\<rparr>
   \<and> upsertRelay (js ''relay.example.com'') False defaultConfig \<noteq> defaultConfig"
  using upsertRelay_disable_absent [of "js ''relay.example.com''" defaultConfig]
  by (simp add: normalizeRelayUrl_def trim_def js_def is_ws_def defaultConfig_def)

text \<open>
  C9 as the specification words it fails on a blank input: its normalised form is not in
  the list, and the configuration is returned unchanged.
\<close>

theorem upsertRelay_disable_absent_counterexample:
  "normalizeRelayUrl (js '' '') \<notin> set (map url (relays defaultConfig))
   \<and> upsertRelay (js '' '') False defaultConfig = defaultConfig"
  by (simp add: upsertRelay_def normalizeRelayUrl_def trim_def js_def is_ws_def defaultConfig_def Let_def)

text \<open>
  C10, as the code has it. \<open>upsertRelay\<close> keeps the theme and keeps the URLs of the
  existing entries in their order. The result is either the original list with the same
  length, in which only entries whose \<open>url\<close> is the normalised input can differ (at most
  one flag changes when the URLs are pairwise distinct), or the original list with one
  entry appended.
\<close>

theorem upsertRelay_frame:
  "theme (upsertRelay u flag c) = theme c
   \<and> take (length (relays c)) (map url (relays (upsertRelay u flag c))) = map url (relays c)
   \<and> ((length (relays (upsertRelay u flag c)) = length (relays c)
        \<and> (\<forall>i < length (relays c).
              url (relays c ! i) \<noteq> normalizeRelayUrl u
              \<longrightarrow> relays (upsertRelay u flag c) ! i = relays c ! i)
        \<and> (distinct (map url (relays c))
              \<longrightarrow> changedFlags (relays c) (relays (upsertRelay u flag c)) \<le> 1))
      \<or> (\<exists>e. relays (upsertRelay u flag c) = relays c @ [e]))"
proof -
  let ?n = "normalizeRelayUrl u"
  let ?f = "\<lambda>r. if url r = ?n then r\<lparr>enabled := flag\<rparr> else r"
  have "upsertRelay u flag c = c
      \<or> upsertRelay u flag c = c\<lparr>relays := map ?f (relays c)\<rparr>
      \<or> upsertRelay u flag c = c\<lparr>relays := relays c @ [\<lparr>url = ?n, enabled = True\<rparr>]\<rparr>"
  proof (cases "?n = []")
    case True
    then show ?thesis by (simp add: upsertRelay_empty)
  next
    case ne: False
    show ?thesis
    proof (cases "find (\<lambda>r. url r = ?n) (relays c)")
      case None
      with ne show ?thesis by (simp add: upsertRelay_absent)
    next
      case (Some e)
      from upsertRelay_present[OF ne Some, of flag] show ?thesis
        by (cases "enabled e \<and> \<not> flag \<and> length (filter enabled (relays c)) \<le> 1")
           (simp_all only: if_True if_False simp_thms)
    qed
  qed
  then consider (same) "upsertRelay u flag c = c"
    | (flagged) "upsertRelay u flag c = c\<lparr>relays := map ?f (relays c)\<rparr>"
    | (added) "upsertRelay u flag c = c\<lparr>relays := relays c @ [\<lparr>url = ?n, enabled = True\<rparr>]\<rparr>"
    by blast
  then show ?thesis
  proof cases
    case same
    then show ?thesis by (simp add: changedFlags_same)
  next
    case flagged
    then have r: "relays (upsertRelay u flag c) = map ?f (relays c)" by simp
    have t: "theme (upsertRelay u flag c) = theme c" by (rule upsertRelay_theme)
    have "take (length (relays c)) (map url (map ?f (relays c))) = map url (relays c)"
      by (simp only: set_flag_urls) simp
    moreover have "length (map ?f (relays c)) = length (relays c)" by simp
    moreover have "\<forall>i < length (relays c). url (relays c ! i) \<noteq> ?n
              \<longrightarrow> map ?f (relays c) ! i = relays c ! i" by simp
    moreover have "distinct (map url (relays c))
              \<longrightarrow> changedFlags (relays c) (map ?f (relays c)) \<le> 1"
      using changedFlags_set_flag[of "relays c" ?n flag] by blast
    ultimately show ?thesis unfolding r using t by blast
  next
    case added
    then show ?thesis by simp
  qed
qed

theorem upsertRelay_frame_witness:
  "changedFlags (relays defaultConfig) (relays (upsertRelay (js ''nos.lol'') False defaultConfig)) \<le> 1
   \<and> relays (upsertRelay (js ''nos.lol'') False defaultConfig) ! 0 = relays defaultConfig ! 0"
  using upsertRelay_frame [of "js ''nos.lol''" False defaultConfig]
  by (simp add: upsertRelay_def normalizeRelayUrl_def trim_def js_def is_ws_def defaultConfig_def Let_def changedFlags_def)

text \<open>
  C10 as the specification words it fails when a URL is stored twice: enabling it changes
  two flags, and nothing is appended.
\<close>

theorem upsertRelay_frame_counterexample:
  "changedFlags
     (relays \<lparr>theme = Dark, relays = [\<lparr>url = js ''wss://a.example'', enabled = False\<rparr>,
                                      \<lparr>url = js ''wss://a.example'', enabled = False\<rparr>]\<rparr>)
     (relays (upsertRelay (js ''wss://a.example'') True
        \<lparr>theme = Dark, relays = [\<lparr>url = js ''wss://a.example'', enabled = False\<rparr>,
                                 \<lparr>url = js ''wss://a.example'', enabled = False\<rparr>]\<rparr>)) = 2
   \<and> length (relays (upsertRelay (js ''wss://a.example'') True
        \<lparr>theme = Dark, relays = [\<lparr>url = js ''wss://a.example'', enabled = False\<rparr>,
                                 \<lparr>url = js ''wss://a.example'', enabled = False\<rparr>]\<rparr>)) = 2"
  by (simp add: upsertRelay_def normalizeRelayUrl_def trim_def js_def is_ws_def Let_def changedFlags_def)

section \<open>The deserialiser\<close>

lemma z_array_relays_nonempty: "z_array_relays is_url j = Some rs \<Longrightarrow> rs \<noteq> []"
  by (induction is_url j rule: z_array_relays.induct) (auto split: option.splits if_splits)

lemma AppConfigSchema_nonempty: "AppConfigSchema is_url p = Some data \<Longrightarrow> relays data \<noteq> []"
  by (cases p) (auto split: option.splits dest: z_array_relays_nonempty)

text \<open>What a payload must hold for the item schema and the legacy schema to accept it.\<close>

lemma z_string_url_Some_iff:
  "z_string_url is_url j = Some u \<longleftrightarrow> j = Some (JStr u) \<and> is_url u"
  by (induction is_url j rule: z_string_url.induct) auto



lemma LegacyAppConfigSchema_Some_iff:
  "LegacyAppConfigSchema is_url p = Some l \<longleftrightarrow>
     (\<exists>kvs. p = JObj kvs
        \<and> z_enum_theme (getProp kvs ''theme'') = Some (legacyTheme l)
        \<and> getProp kvs ''relayUrl'' = Some (JStr (relayUrl l)) \<and> is_url (relayUrl l))"
proof (cases p)
  case (JObj kvs)
  have "LegacyAppConfigSchema is_url (JObj kvs) = Some l \<longleftrightarrow>
      z_enum_theme (getProp kvs ''theme'') = Some (legacyTheme l)
      \<and> z_string_url is_url (getProp kvs ''relayUrl'') = Some (relayUrl l)"
    by (cases l) (auto split: option.splits)
  with JObj show ?thesis by (simp add: z_string_url_Some_iff)
qed simp_all

text \<open>With no relay enabled, the repair changes the first entry only.\<close>

lemma force_first_later:
  "\<not> list_ex enabled rs \<Longrightarrow> 0 < m \<Longrightarrow>
     map (\<lambda>(i, r). r\<lparr>enabled := (i = 0)\<rparr>) (enumerate m rs) = rs"
  by (induction rs arbitrary: m) auto

lemma force_first:
  "\<not> list_ex enabled rs \<Longrightarrow>
     map (\<lambda>(i, r). r\<lparr>enabled := (i = 0)\<rparr>) (enumerate 0 rs) =
       (case rs of [] \<Rightarrow> [] | r # rs' \<Rightarrow> r\<lparr>enabled := True\<rparr> # rs')"
  by (cases rs) (auto simp: force_first_later)

text \<open>
  C1. When \<open>JSON.parse\<close> throws, or the parsed payload fails both the current and the
  legacy schema, \<open>deserialize\<close> returns exactly the supplied default configuration; the
  result is a configuration in every case, never an error.
\<close>

theorem deserialize_fallback:
  assumes "JSON_parse v = None
           \<or> (\<exists>parsed. JSON_parse v = Some parsed
                 \<and> AppConfigSchema is_url parsed = None
                 \<and> LegacyAppConfigSchema is_url parsed = None)"
  shows "deserialize JSON_parse is_url dflt v = dflt"
  using assms by (auto simp: deserialize_def)

theorem deserialize_fallback_witness:
  "deserialize (\<lambda>s. None :: unit json option) (\<lambda>u. True) defaultConfig (js ''{'') = defaultConfig
   \<and> deserialize (\<lambda>s. Some (JObj [(js ''theme'', JStr (js ''blue''))] :: unit json))
         (\<lambda>u. True) defaultConfig (js ''stored'') = defaultConfig"
  using deserialize_fallback [of "\<lambda>s. None :: unit json option" "js ''{''" "\<lambda>u. True" defaultConfig]
    deserialize_fallback [of "\<lambda>s. Some (JObj [(js ''theme'', JStr (js ''blue''))] :: unit json)"
       "js ''stored''" "\<lambda>u. True" defaultConfig]
  by (simp add: getProp_def js_def)











text \<open>
  C4. If the default configuration has a relay and an enabled relay, then so has the
  configuration \<open>deserialize\<close> returns, whatever the payload, the parser and the URL check.
\<close>

theorem deserialize_invariant:
  assumes "relays dflt \<noteq> []" and "list_ex enabled (relays dflt)"
  shows "relays (deserialize JSON_parse is_url dflt v) \<noteq> []
     \<and> list_ex enabled (relays (deserialize JSON_parse is_url dflt v))"
proof (cases "JSON_parse v")
  case None
  with assms show ?thesis by (simp add: deserialize_def)
next
  case (Some parsed)
  show ?thesis
  proof (cases "AppConfigSchema is_url parsed")
    case None
    with Some assms show ?thesis by (simp add: deserialize_def split: option.splits)
  next
    case (Some data)
    then obtain r rs where rs: "relays data = r # rs"
      using AppConfigSchema_nonempty by (cases "relays data") auto
    show ?thesis
    proof (cases "list_ex enabled (relays data)")
      case True
      with Some \<open>JSON_parse v = Some parsed\<close> rs show ?thesis by (simp add: deserialize_def)
    next
      case False
      with Some \<open>JSON_parse v = Some parsed\<close> have "deserialize JSON_parse is_url dflt v =
        data\<lparr>relays := map (\<lambda>(i, r). r\<lparr>enabled := (i = 0)\<rparr>) (enumerate 0 (relays data))\<rparr>"
        by (simp add: deserialize_def)
      with force_first[OF False] rs show ?thesis by simp
    qed
  qed
qed

theorem deserialize_invariant_witness:
  "relays (deserialize (\<lambda>s. None :: unit json option) (\<lambda>u. True) defaultConfig (js ''{'')) \<noteq> []
   \<and> list_ex enabled
        (relays (deserialize (\<lambda>s. None :: unit json option) (\<lambda>u. True) defaultConfig (js ''{'')))"
  using deserialize_invariant [of defaultConfig "\<lambda>s. None :: unit json option" "\<lambda>u. True" "js ''{''"]
  by (simp add: defaultConfig_def)

section \<open>The relay pool adapter\<close>

lemma relayUrls_initial_effect:
  "list_ex enabled (relays c) \<Longrightarrow> relayUrls_initial c = relayUrls_effect c"
  by (auto simp: relayUrls_initial_def relayUrls_effect_def Let_def list_ex_iff filter_empty_conv)

text \<open>
  C8, as the code has it. For a configuration with a relay, the list the effect stores is
  the list of the URLs of the enabled relays when there is one, and otherwise the
  one-element list of the first configured relay's URL, whatever its flag; so it is not
  empty. With no relay configured the stored list is empty.
\<close>

theorem relayUrls_effect_fallback:
  "(list_ex enabled (relays c) \<longrightarrow> relayUrls_effect c = map url (filter enabled (relays c)))
   \<and> (\<not> list_ex enabled (relays c) \<and> relays c \<noteq> [] \<longrightarrow> relayUrls_effect c = [url (hd (relays c))])
   \<and> (relays c \<noteq> [] \<longrightarrow> relayUrls_effect c \<noteq> [])
   \<and> (relays c = [] \<longrightarrow> relayUrls_effect c = [])"
  by (cases "relays c") (auto simp: relayUrls_effect_def Let_def list_ex_iff filter_empty_conv)

theorem relayUrls_effect_fallback_witness:
  "relayUrls_effect \<lparr>theme = Dark, relays = [\<lparr>url = js ''wss://a.example'', enabled = False\<rparr>,
                                             \<lparr>url = js ''wss://b.example'', enabled = False\<rparr>]\<rparr>
     = [js ''wss://a.example'']
   \<and> relayUrls_effect \<lparr>theme = Dark, relays = [\<lparr>url = js ''wss://a.example'', enabled = False\<rparr>,
                                             \<lparr>url = js ''wss://b.example'', enabled = True\<rparr>]\<rparr>
     = [js ''wss://b.example'']"
  using relayUrls_effect_fallback [of "\<lparr>theme = Dark, relays = [\<lparr>url = js ''wss://a.example'', enabled = False\<rparr>,
                                             \<lparr>url = js ''wss://b.example'', enabled = False\<rparr>]\<rparr>"]
    relayUrls_effect_fallback [of "\<lparr>theme = Dark, relays = [\<lparr>url = js ''wss://a.example'', enabled = False\<rparr>,
                                             \<lparr>url = js ''wss://b.example'', enabled = True\<rparr>]\<rparr>"]
  by simp

text \<open>
  C8 as the specification words it fails twice. With no relay configured there is no
  first relay, and the stored list is empty, not a one-element list. And the value the
  reference starts with, read until the first effect has run, has no fallback: with two
  relays, both disabled, it is empty.
\<close>

theorem relayUrls_fallback_counterexample:
  "relayUrls_effect \<lparr>theme = Dark, relays = []\<rparr> = []
   \<and> relays \<lparr>theme = Dark, relays = [\<lparr>url = js ''wss://a.example'', enabled = False\<rparr>,
                                        \<lparr>url = js ''wss://b.example'', enabled = False\<rparr>]\<rparr> \<noteq> []
   \<and> relayUrls_initial \<lparr>theme = Dark, relays = [\<lparr>url = js ''wss://a.example'', enabled = False\<rparr>,
                                                   \<lparr>url = js ''wss://b.example'', enabled = False\<rparr>]\<rparr>
       = []"
  by (simp add: relayUrls_effect_def relayUrls_initial_def)

end
